theory Spec2Isabelle
  imports Complex_Main "HOL-Library.Word" "HOL-Library.Signed_Division" "HOL-Library.AList"
begin

unbundle bit_operations_syntax

section \<open>libvsic: strings, nicknames and the random suffix\<close>

text \<open>
  Go strings are byte sequences; \<open>string\<close> (a list of 8-bit characters) models them
  byte for byte, so \<open>length\<close> is Go's \<open>len\<close>.
\<close>

definition LF :: char where
  "LF = CHR 0x0A"

definition CR :: char where
  "CR = CHR 0x0D"

text \<open>\<open>strings.TrimPrefix\<close>: drop the prefix when the string starts with it.\<close>

definition TrimPrefix :: "string \<Rightarrow> string \<Rightarrow> string" where
  "TrimPrefix s p = (if take (length p) s = p then drop (length p) s else s)"

text \<open>
  \<open>strings.TrimRight(s, cutset)\<close>: drop every trailing byte that occurs in the cutset
  (the cutsets used by the program are ASCII).
\<close>

definition TrimRight :: "string \<Rightarrow> string \<Rightarrow> string" where
  "TrimRight s cutset = rev (dropWhile (\<lambda>c. c \<in> set cutset) (rev s))"

text \<open>
  \<open>strings.TrimSpace\<close> removes leading and trailing Unicode white space. On the UTF-8
  bytes of a Go string these are the six ASCII space bytes and the encodings of U+0085,
  U+00A0, U+1680, U+2000 to U+200A, U+2028, U+2029, U+202F, U+205F and U+3000.
\<close>

definition spaceSeqs :: "string list" where
  "spaceSeqs =
     [[CHR 0x09], [CHR 0x0A], [CHR 0x0B], [CHR 0x0C], [CHR 0x0D], [CHR 0x20],
      [CHR 0xC2, CHR 0x85], [CHR 0xC2, CHR 0xA0], [CHR 0xE1, CHR 0x9A, CHR 0x80],
      [CHR 0xE2, CHR 0x80, CHR 0x80], [CHR 0xE2, CHR 0x80, CHR 0x81],
      [CHR 0xE2, CHR 0x80, CHR 0x82], [CHR 0xE2, CHR 0x80, CHR 0x83],
      [CHR 0xE2, CHR 0x80, CHR 0x84], [CHR 0xE2, CHR 0x80, CHR 0x85],
      [CHR 0xE2, CHR 0x80, CHR 0x86], [CHR 0xE2, CHR 0x80, CHR 0x87],
      [CHR 0xE2, CHR 0x80, CHR 0x88], [CHR 0xE2, CHR 0x80, CHR 0x89],
      [CHR 0xE2, CHR 0x80, CHR 0x8A], [CHR 0xE2, CHR 0x80, CHR 0xA8],
      [CHR 0xE2, CHR 0x80, CHR 0xA9], [CHR 0xE2, CHR 0x80, CHR 0xAF],
      [CHR 0xE2, CHR 0x81, CHR 0x9F], [CHR 0xE3, CHR 0x80, CHR 0x80]]"

definition seqPrefix :: "string list \<Rightarrow> string \<Rightarrow> nat" where
  "seqPrefix seqs s =
     (case filter (\<lambda>q. q \<noteq> [] \<and> take (length q) s = q) seqs of
        [] \<Rightarrow> 0 | q # _ \<Rightarrow> length q)"

lemma seqPrefix_Nil: "seqPrefix seqs [] = 0"
proof -
  have "filter (\<lambda>q. q \<noteq> [] \<and> take (length q) [] = q) seqs = []"
    by (induction seqs) auto
  then show ?thesis by (simp add: seqPrefix_def)
qed

function trimLeading :: "string list \<Rightarrow> string \<Rightarrow> string" where
  "trimLeading seqs s =
     (if seqPrefix seqs s = 0 then s else trimLeading seqs (drop (seqPrefix seqs s) s))"
  by pat_completeness auto
termination
proof (relation "measure (\<lambda>(seqs, s). length s)")
  show "wf (measure (\<lambda>(seqs, s). length s))" by simp
next
  fix seqs :: "string list" and s :: string
  assume a: "seqPrefix seqs s \<noteq> 0"
  then have "s \<noteq> []" using seqPrefix_Nil by auto
  with a show "((seqs, drop (seqPrefix seqs s) s), (seqs, s)) \<in> measure (\<lambda>(seqs, s). length s)"
    by simp
qed

declare trimLeading.simps [simp del]

definition TrimSpace :: "string \<Rightarrow> string" where
  "TrimSpace s =
     rev (trimLeading (map rev spaceSeqs) (rev (trimLeading spaceSeqs s)))"

text \<open>
  \<open>ParseCommand\<close>: split at the first space (\<open>strings.IndexByte\<close>); the argument is
  the rest, trimmed.
\<close>

definition ParseCommand :: "string \<Rightarrow> string \<times> string" where
  "ParseCommand line =
     (if CHR '' '' \<in> set line
      then (takeWhile (\<lambda>c. c \<noteq> CHR '' '') line,
            TrimSpace (tl (dropWhile (\<lambda>c. c \<noteq> CHR '' '') line)))
      else (line, []))"

text \<open>
  \<open>ValidNick\<close>: the length test counts bytes; the loop ranges over the runes of the
  string. A byte below 0x80 is its own rune, and every other byte belongs to a rune
  of value at least 0x80 (or is decoded as U+FFFD), which fails the test exactly as
  the byte itself does here.
\<close>

definition nickRune :: "char \<Rightarrow> bool" where
  "nickRune r \<longleftrightarrow>
     (of_char (CHR ''a'') \<le> (of_char r :: nat) \<and> (of_char r :: nat) \<le> of_char (CHR ''z'')) \<or>
     (of_char (CHR ''A'') \<le> (of_char r :: nat) \<and> (of_char r :: nat) \<le> of_char (CHR ''Z'')) \<or>
     (of_char (CHR ''0'') \<le> (of_char r :: nat) \<and> (of_char r :: nat) \<le> of_char (CHR ''9'')) \<or>
     r = CHR ''_''"

fun nickRunes :: "string \<Rightarrow> bool" where
  "nickRunes [] = True"
| "nickRunes (r # rs) = (if \<not> nickRune r then False else nickRunes rs)"

definition ValidNick :: "string \<Rightarrow> bool" where
  "ValidNick n = (if length n < 3 \<or> length n > 20 then False else nickRunes n)"

text \<open>
  \<open>itoa\<close> formats \<open>time.Unix(n, 0).UTC()\<close> with the layout \<open>"0000"\<close>. The layout
  scanner of Go's \<open>time\<close> package (\<open>nextStdChunk\<close>) walks over the layout and
  recognises a reference element only at the byte patterns below; every other byte is
  copied to the output. \<open>elementAt\<close> tells whether an element starts at the head of
  the remaining layout, with the scanner's cases in its order.
\<close>

definition startsWith :: "string \<Rightarrow> string \<Rightarrow> bool" where
  "startsWith s p \<longleftrightarrow> take (length p) s = p"

definition isDigitAt :: "string \<Rightarrow> bool" where
  "isDigitAt s = (case s of [] \<Rightarrow> False | c # _ \<Rightarrow> c \<in> set ''0123456789'')"

definition elementAt :: "string \<Rightarrow> bool" where
  "elementAt s =
     (case s of
        [] \<Rightarrow> False
      | c # rest \<Rightarrow>
          if c = CHR ''J'' then startsWith s ''Jan''
          else if c = CHR ''M'' then startsWith s ''Mon'' \<or> startsWith s ''MST''
          else if c = CHR ''0'' then
            (case rest of [] \<Rightarrow> False
             | d # _ \<Rightarrow> d \<in> set ''123456'' \<or> startsWith rest ''02'')
          else if c \<in> set ''12345'' then True
          else if c = CHR ''_'' then startsWith rest ''2'' \<or> startsWith rest ''_2''
          else if c = CHR ''P'' then startsWith rest ''M''
          else if c = CHR ''p'' then startsWith rest ''m''
          else if c = CHR ''-'' \<or> c = CHR ''Z'' then startsWith rest ''07''
          else if c = CHR ''.'' \<or> c = CHR '','' then
            (case rest of [] \<Rightarrow> False
             | d # _ \<Rightarrow> (d = CHR ''0'' \<or> d = CHR ''9'') \<and>
                        \<not> isDigitAt (dropWhile (\<lambda>x. x = d) rest))
          else False)"

fun hasElement :: "string \<Rightarrow> bool" where
  "hasElement [] = False"
| "hasElement (c # rest) = (if elementAt (c # rest) then True else hasElement rest)"

text \<open>
  \<open>Format\<close>: a layout without any reference element is the output, whatever the
  time is. \<open>None\<close> stands for a layout with an element, whose rendering (calendar
  fields) is not needed for the layouts of this program.
\<close>

definition Format :: "int \<Rightarrow> string \<Rightarrow> string option" where
  "Format unixSec layout = (if hasElement layout then None else Some layout)"

type_synonym go_int = "64 word"

definition itoa :: "go_int \<Rightarrow> string option" where
  "itoa n =
     map_option (\<lambda>f. TrimPrefix (TrimPrefix f ''1970'') [])
       (Format (sint n) ''0000'')"

definition pad4 :: "go_int \<Rightarrow> string option" where
  "pad4 n =
     (if n <s 10 then map_option (\<lambda>d. ''000'' @ d) (itoa n)
      else if n <s 100 then map_option (\<lambda>d. ''00'' @ d) (itoa n)
      else if n <s 1000 then map_option (\<lambda>d. ''0'' @ d) (itoa n)
      else itoa n)"

text \<open>
  \<open>RandomSuffix\<close>: the two bytes \<open>b0\<close>, \<open>b1\<close> are what \<open>rand.Read\<close> left in the
  array; \<open>binary.BigEndian.Uint16\<close> joins them, and the remainder is unsigned 16-bit.
\<close>

definition Uint16 :: "8 word \<Rightarrow> 8 word \<Rightarrow> 16 word" where
  "Uint16 b0 b1 = (push_bit 8 (ucast b0)) OR ucast b1"

definition RandomSuffix :: "8 word \<Rightarrow> 8 word \<Rightarrow> string option" where
  "RandomSuffix b0 b1 =
     (let n = Uint16 b0 b1 mod 10000
      in map_option (\<lambda>p. ''_'' @ p) (pad4 (ucast n)))"

text \<open>The suffix the specification describes: an underscore and four zero-padded digits.\<close>

definition digit :: "nat \<Rightarrow> char" where
  "digit d = ''0123456789'' ! (d mod 10)"

definition fourDigits :: "nat \<Rightarrow> string" where
  "fourDigits n = [digit (n div 1000), digit (n div 100), digit (n div 10), digit n]"

section \<open>libvsic: the line transport\<close>

datatype error =
    ReadErr | MessageTooBig | InvalidControlChars | WriteErr
  | PanicSendOnClosed | PanicCloseOfClosed | PanicDivideByZero | FormatElement

text \<open>
  A connection. \<open>inbuf\<close> holds the bytes its reader will still obtain from the peer
  (a read that finds no newline in them ends in EOF or in the read deadline);
  \<open>outbuf\<close> holds the bytes flushed to the peer; \<open>connClosed\<close> is set by \<open>Close\<close>.
  The last two fields are those of the \<open>cfg\<close> field, as \<open>Wrap\<close> sets them.
\<close>

record Conn =
  inbuf :: string
  outbuf :: string
  connClosed :: bool
  Nick :: string
  cfgMaxMsgSize :: go_int
  cfgTimeoutSec :: go_int

definition Wrap :: "string \<Rightarrow> go_int \<Rightarrow> go_int \<Rightarrow> Conn" where
  "Wrap peerBytes maxMsgSize timeoutSec =
     \<lparr> inbuf = peerBytes, outbuf = [], connClosed = False, Nick = [],
       cfgMaxMsgSize = (if maxMsgSize \<le>s 0 then 4096 else maxMsgSize),
       cfgTimeoutSec = (if timeoutSec \<le>s 0 then 120 else timeoutSec) \<rparr>"

definition Close :: "Conn \<Rightarrow> Conn" where
  "Close c = c\<lparr>connClosed := True\<rparr>"

text \<open>
  \<open>ReadLine\<close>. \<open>ReadString('\n')\<close> returns the bytes up to and including the first
  newline and consumes them; without a newline it consumes what is there and fails.
\<close>

definition ReadLine :: "Conn \<Rightarrow> (error + string) \<times> Conn" where
  "ReadLine c =
     (if LF \<notin> set (inbuf c) then (Inl ReadErr, c\<lparr>inbuf := []\<rparr>)
      else
        let line = takeWhile (\<lambda>b. b \<noteq> LF) (inbuf c) @ [LF];
            c' = c\<lparr>inbuf := tl (dropWhile (\<lambda>b. b \<noteq> LF) (inbuf c))\<rparr>
        in if int (length line) > sint (cfgMaxMsgSize c) then (Inl MessageTooBig, c')
           else
             let line' = TrimRight line [CR, LF]
             in if LF \<in> set line' \<or> CR \<in> set line' then (Inl InvalidControlChars, c')
                else (Inr line', c'))"

text \<open>
  \<open>WriteLine\<close>. The line and its newline reach the peer when the connection is open;
  on a closed connection the flush fails.
\<close>

definition WriteLine :: "Conn \<Rightarrow> string \<Rightarrow> (error + unit) \<times> Conn" where
  "WriteLine c s =
     (if int (length s) > sint (cfgMaxMsgSize c) then (Inl MessageTooBig, c)
      else if LF \<in> set s \<or> CR \<in> set s then (Inl InvalidControlChars, c)
      else if connClosed c then (Inl WriteErr, c)
      else (Inr (), c\<lparr>outbuf := outbuf c @ s @ [LF]\<rparr>))"

section \<open>vsicd: the server state\<close>

text \<open>
  Go's \<open>int\<close> and \<open>int64\<close> are 64-bit words read as two's complement. The
  configuration keeps the fields the connection handler reads.
\<close>

record Config =
  Motd :: string
  MaxConnsPerIP :: go_int
  MaxMsgsPerSec :: go_int
  MaxMsgSize :: go_int
  MaxKeepalive :: go_int

text \<open>
  A client object. \<open>Send\<close> is the content of the channel of capacity 16 and
  \<open>SendClosed\<close> tells whether it was closed. \<open>LastMsg\<close> is a time in nanoseconds
  counted from the zero \<open>time.Time\<close>, so that the zero value of the field is 0.
\<close>

record Client =
  Conn :: Conn
  Send :: "string list"
  SendClosed :: bool
  IP :: string
  LastMsg :: int
  MsgCount :: go_int

text \<open>
  The server. \<open>clients\<close> maps nicknames to pointers; the objects they point to
  live in \<open>heap\<close>, and \<open>nextId\<close> is the next fresh pointer. A missing key of
  \<open>ipCounts\<close> reads as 0, as in Go.
\<close>

record Server =
  cfg :: Config
  clients :: "(string \<times> nat) list"
  ipCounts :: "string \<rightharpoonup> go_int"
  totalMsg :: "64 word"
  heap :: "nat \<Rightarrow> Client"
  nextId :: nat

definition ipCount :: "Server \<Rightarrow> string \<Rightarrow> go_int" where
  "ipCount s a = (case ipCounts s a of None \<Rightarrow> 0 | Some n \<Rightarrow> n)"

definition setClient :: "Server \<Rightarrow> nat \<Rightarrow> Client \<Rightarrow> Server" where
  "setClient s cid c = s\<lparr>heap := (heap s)(cid := c)\<rparr>"

text \<open>The defaults \<open>loadConfig\<close> puts in place of non-positive limits.\<close>

definition loadConfig :: "Config \<Rightarrow> Config" where
  "loadConfig c0 =
     (let c1 = (if MaxMsgSize c0 \<le>s 0 then c0\<lparr>MaxMsgSize := 4096\<rparr> else c0);
          c2 = (if MaxConnsPerIP c1 \<le>s 0 then c1\<lparr>MaxConnsPerIP := 4\<rparr> else c1);
          c3 = (if MaxMsgsPerSec c2 \<le>s 0 then c2\<lparr>MaxMsgsPerSec := 1\<rparr> else c2)
      in c3)"

definition emptyClient :: Client where
  "emptyClient =
     \<lparr> Conn = Wrap [] 0 0, Send = [], SendClosed = False, IP = [], LastMsg = 0,
       MsgCount = 0 \<rparr>"

definition start :: "Config \<Rightarrow> Server" where
  "start c0 =
     \<lparr> cfg = loadConfig c0, clients = [], ipCounts = Map.empty, totalMsg = 0,
       heap = (\<lambda>_. emptyClient), nextId = 0 \<rparr>"

definition max_go :: "go_int \<Rightarrow> go_int \<Rightarrow> go_int" where
  "max_go a b = (if b <s a then a else b)"

subsection \<open>broadcast, disconnect, uniqueNick\<close>

text \<open>
  One \<open>select\<close> with a send case and a \<open>default\<close>: the message is queued when the
  channel has room and dropped otherwise; a send on a closed channel panics.
\<close>

definition trySend :: "Client \<Rightarrow> string \<Rightarrow> error + Client" where
  "trySend c msg =
     (if SendClosed c then Inl PanicSendOnClosed
      else if length (Send c) < 16 then Inr (c\<lparr>Send := Send c @ [msg]\<rparr>)
      else Inr c)"

fun sendAll :: "nat list \<Rightarrow> string \<Rightarrow> (nat \<Rightarrow> Client) \<Rightarrow> error + (nat \<Rightarrow> Client)" where
  "sendAll [] msg h = Inr h"
| "sendAll (p # ps) msg h =
     (case trySend (h p) msg of
        Inl e \<Rightarrow> Inl e
      | Inr c \<Rightarrow> sendAll ps msg (h(p := c)))"

definition broadcast :: "Server \<Rightarrow> string \<Rightarrow> error + Server" where
  "broadcast s msg =
     (case sendAll (map snd (clients s)) msg (heap s) of
        Inl e \<Rightarrow> Inl e
      | Inr h \<Rightarrow> Inr (s\<lparr>heap := h, totalMsg := totalMsg s + 1\<rparr>))"

definition disconnect :: "Server \<Rightarrow> nat \<Rightarrow> error + Server" where
  "disconnect s p =
     (let c = heap s p
      in if SendClosed c then Inl PanicCloseOfClosed
         else
           let c' = c\<lparr>Conn := Close (Conn c), SendClosed := True\<rparr>
           in Inr (s\<lparr>heap := (heap s)(p := c'),
                    clients := AList.delete (Nick (Conn c)) (clients s),
                    ipCounts := (ipCounts s)(IP c \<mapsto> ipCount s (IP c) - 1)\<rparr>))"

definition uniqueNick :: "Server \<Rightarrow> string \<Rightarrow> 8 word \<Rightarrow> 8 word \<Rightarrow> string option" where
  "uniqueNick s n b0 b1 =
     (if map_of (clients s) n = None then Some n
      else map_option (\<lambda>suffix. n @ suffix) (RandomSuffix b0 b1))"

subsection \<open>Time and the message interval\<close>

text \<open>
  \<open>time.Since(t)\<close> is the clock reading minus \<open>t\<close>, saturated to the range of a
  \<open>Duration\<close> (a signed 64-bit count of nanoseconds). Integer division truncates
  towards zero and panics on a zero divisor.
\<close>

definition Since :: "int \<Rightarrow> int \<Rightarrow> go_int" where
  "Since now t =
     (let d = now - t
      in if d > 2 ^ 63 - 1 then word_of_int (2 ^ 63 - 1)
         else if d < - (2 ^ 63) then word_of_int (- (2 ^ 63))
         else word_of_int d)"

definition go_div :: "go_int \<Rightarrow> go_int \<Rightarrow> error + go_int" where
  "go_div a b = (if b = 0 then Inl PanicDivideByZero else Inr (word_of_int (sint a sdiv sint b)))"

definition Second :: go_int where
  "Second = 1000000000"

definition msgInterval :: "Config \<Rightarrow> error + go_int" where
  "msgInterval c = go_div Second (max_go 1 (MaxMsgsPerSec c))"

subsection \<open>handle\<close>

text \<open>
  \<open>handle\<close> is split at the points where the goroutine waits: \<open>accept\<close> is the code
  before the first read, \<open>handshake\<close> the first read and what follows it up to the
  loop, \<open>activeStep\<close> one iteration of the loop. \<open>writeLoopStep\<close> is one iteration
  of \<open>writeLoop\<close>. Results of \<open>WriteLine\<close> that the source discards are discarded.
\<close>

definition remoteIP :: "string \<Rightarrow> string" where
  "remoteIP addr = takeWhile (\<lambda>c. c \<noteq> CHR '':'') addr"

definition accept :: "Server \<Rightarrow> string \<Rightarrow> string \<Rightarrow> Server \<times> nat option" where
  "accept s addr peerBytes =
     (let ip = remoteIP addr
      in if MaxConnsPerIP (cfg s) \<le>s ipCount s ip then (s, None)
         else
           let client =
                 \<lparr> Conn = Wrap peerBytes (MaxMsgSize (cfg s)) (MaxKeepalive (cfg s)),
                   Send = [], SendClosed = False, IP = ip, LastMsg = 0, MsgCount = 0 \<rparr>
           in (s\<lparr>ipCounts := (ipCounts s)(ip \<mapsto> ipCount s ip + 1),
                 heap := (heap s)(nextId s := client),
                 nextId := Suc (nextId s)\<rparr>,
               Some (nextId s)))"

fun SplitLF :: "string \<Rightarrow> string list" where
  "SplitLF [] = [[]]"
| "SplitLF (c # cs) =
     (if c = LF then [] # SplitLF cs
      else (case SplitLF cs of [] \<Rightarrow> [[c]] | l # ls \<Rightarrow> (c # l) # ls))"

fun writeMotd :: "Conn \<Rightarrow> string list \<Rightarrow> Conn" where
  "writeMotd c [] = c"
| "writeMotd c (line # lines) =
     (if line \<noteq> [] then writeMotd (snd (WriteLine c (''MOTD '' @ line))) lines
      else writeMotd c lines)"

definition handshake :: "Server \<Rightarrow> nat \<Rightarrow> 8 word \<Rightarrow> 8 word \<Rightarrow> error + Server" where
  "handshake s p b0 b1 =
     (let client = heap s p;
          (r, vconn) = ReadLine (Conn client);
          s1 = setClient s p (client\<lparr>Conn := vconn\<rparr>)
      in case r of
           Inl err \<Rightarrow> disconnect s1 p
         | Inr line \<Rightarrow>
             (let (cmd, arg) = ParseCommand line
              in if cmd \<noteq> ''HELLO'' \<or> \<not> ValidNick arg then
                   disconnect
                     (setClient s1 p (client\<lparr>Conn := snd (WriteLine vconn ''ERROR 100'')\<rparr>)) p
                 else
                   (case uniqueNick s1 arg b0 b1 of
                      None \<Rightarrow> Inl FormatElement
                    | Some nick \<Rightarrow>
                        let vconn1 = vconn\<lparr>Nick := nick\<rparr>;
                            vconn2 = snd (WriteLine vconn1 (''HELLO '' @ nick));
                            vconn3 = (if Motd (cfg s) \<noteq> []
                                      then writeMotd vconn2 (SplitLF (Motd (cfg s)))
                                      else vconn2)
                        in Inr ((setClient s1 p (client\<lparr>Conn := vconn3\<rparr>))
                                  \<lparr>clients := AList.update nick p (clients s1)\<rparr>))))"

definition activeStep :: "Server \<Rightarrow> nat \<Rightarrow> int \<Rightarrow> int \<Rightarrow> error + Server" where
  "activeStep s p now1 now2 =
     (let client = heap s p;
          nick = Nick (Conn client);
          (r, vconn) = ReadLine (Conn client);
          client1 = client\<lparr>Conn := vconn\<rparr>;
          s1 = setClient s p client1
      in case r of
           Inl err \<Rightarrow> disconnect s1 p
         | Inr line \<Rightarrow>
             (let (cmd, arg) = ParseCommand line
              in if cmd = ''MSG'' then
                   (case msgInterval (cfg s) of
                      Inl e \<Rightarrow> Inl e
                    | Inr d \<Rightarrow>
                        if Since now1 (LastMsg client) <s d then Inr s1
                        else broadcast (setClient s1 p (client1\<lparr>LastMsg := now2\<rparr>))
                               (''MSG '' @ nick @ '': '' @ arg))
                 else if cmd = ''PING'' then
                   Inr (setClient s1 p (client1\<lparr>Conn := snd (WriteLine vconn ''PONG'')\<rparr>))
                 else if cmd = ''BYE'' then
                   disconnect
                     (setClient s1 p (client1\<lparr>Conn := snd (WriteLine vconn ''CYA'')\<rparr>)) p
                 else Inr s1))"

definition writeLoopStep :: "Server \<Rightarrow> nat \<Rightarrow> Server" where
  "writeLoopStep s p =
     (let c = heap s p
      in case Send c of
           [] \<Rightarrow> s
         | msg # rest \<Rightarrow>
             setClient s p (c\<lparr>Send := rest, Conn := snd (WriteLine (Conn c) msg)\<rparr>))"

subsection \<open>Reachable states\<close>

text \<open>
  Where a handler stands is read off its client: it has returned once \<open>disconnect\<close>
  connClosed the channel, and it is in its loop once the nickname is set.
\<close>

datatype phase = AwaitingHello | Active | Closed

definition phaseOf :: "Client \<Rightarrow> phase" where
  "phaseOf c =
     (if SendClosed c then Closed
      else if Nick (Conn c) = [] then AwaitingHello
      else Active)"

inductive reachable :: "Server \<Rightarrow> bool" where
  init: "reachable (start c0)"
| conn: "reachable s \<Longrightarrow> reachable (fst (accept s addr peerBytes))"
| hello: "reachable s \<Longrightarrow> p < nextId s \<Longrightarrow> phaseOf (heap s p) = AwaitingHello \<Longrightarrow>
          handshake s p b0 b1 = Inr s' \<Longrightarrow> reachable s'"
| line: "reachable s \<Longrightarrow> p < nextId s \<Longrightarrow> phaseOf (heap s p) = Active \<Longrightarrow>
         activeStep s p now1 now2 = Inr s' \<Longrightarrow> reachable s'"
| drain: "reachable s \<Longrightarrow> p < nextId s \<Longrightarrow> reachable (writeLoopStep s p)"

subsection \<open>Invariants\<close>

text \<open>
  What the invariants read of a client: whether its channel is closed, its address,
  its nickname and whether its connection is closed. \<open>same\<close> relates two states
  that differ in nothing else than the other fields of clients and the message
  counter.
\<close>

definition sk :: "Client \<Rightarrow> bool \<times> string \<times> string \<times> bool" where
  "sk c = (SendClosed c, IP c, Nick (Conn c), connClosed (Conn c))"

definition same :: "Server \<Rightarrow> Server \<Rightarrow> bool" where
  "same s s' \<longleftrightarrow>
     cfg s' = cfg s \<and> clients s' = clients s \<and> ipCounts s' = ipCounts s \<and>
     nextId s' = nextId s \<and> (\<forall>q. sk (heap s' q) = sk (heap s q))"

definition regOK :: "Server \<Rightarrow> bool" where
  "regOK s \<longleftrightarrow>
     distinct (map fst (clients s)) \<and>
     (\<forall>k p. map_of (clients s) k = Some p \<longrightarrow>
        k \<noteq> [] \<and> p < nextId s \<and> \<not> SendClosed (heap s p) \<and>
        Nick (Conn (heap s p)) = k)"

definition openOK :: "Server \<Rightarrow> bool" where
  "openOK s \<longleftrightarrow> (\<forall>q. connClosed (Conn (heap s q)) \<longrightarrow> SendClosed (heap s q))"

definition live :: "Server \<Rightarrow> string \<Rightarrow> nat set" where
  "live s a = {p. p < nextId s \<and> \<not> SendClosed (heap s p) \<and> IP (heap s p) = a}"

definition countOK :: "Server \<Rightarrow> bool" where
  "countOK s \<longleftrightarrow>
     1 \<le> sint (MaxConnsPerIP (cfg s)) \<and>
     (\<forall>a. sint (ipCount s a) = int (card (live s a)) \<and>
          int (card (live s a)) \<le> sint (MaxConnsPerIP (cfg s)))"

text \<open>
  \<open>registered\<close>: the second state is the first with the nickname of the client at
  \<open>p\<close> set and entered in the registry.
\<close>

definition registered :: "Server \<Rightarrow> nat \<Rightarrow> string \<Rightarrow> Server \<Rightarrow> bool" where
  "registered s p nick s' \<longleftrightarrow>
     cfg s' = cfg s \<and> ipCounts s' = ipCounts s \<and> nextId s' = nextId s \<and>
     clients s' = AList.update nick p (clients s) \<and>
     (\<forall>q. sk (heap s' q) =
            (if q = p then (SendClosed (heap s p), IP (heap s p), nick, connClosed (Conn (heap s p)))
             else sk (heap s q)))"

section \<open>States used as examples\<close>

definition cfg0 :: Config where
  "cfg0 = \<lparr> Motd = [], MaxConnsPerIP = 0, MaxMsgsPerSec = 0, MaxMsgSize = 0, MaxKeepalive = 0 \<rparr>"

text \<open>The server after it accepted one connection.\<close>

definition oneConn :: Server where
  "oneConn = fst (accept (start cfg0) ''10.0.0.1:4000'' [])"

text \<open>The count of the client's address once \<open>disconnect\<close> has run.\<close>

definition releasedCount :: "Server \<Rightarrow> nat \<Rightarrow> error + int" where
  "releasedCount s p =
     (case disconnect s p of
        Inl e \<Rightarrow> Inl e
      | Inr s' \<Rightarrow> Inr (sint (ipCount s' (IP (heap s p)))))"

text \<open>
  A peer that connects and sends \<open>HELLO n\<close>: \<open>accept\<close> followed by \<open>handshake\<close>.
  \<open>twoBobs\<close> is the server after two peers asked for the nickname \<open>bob\<close>.
\<close>

definition hello :: "string \<Rightarrow> string" where
  "hello n = ''HELLO '' @ n @ [LF]"

definition afterHello :: "Server \<Rightarrow> string \<Rightarrow> string \<Rightarrow> 8 word \<Rightarrow> 8 word \<Rightarrow> Server" where
  "afterHello s addr bytes b0 b1 =
     (case accept s addr bytes of
        (s1, None) \<Rightarrow> s1
      | (s1, Some p) \<Rightarrow> (case handshake s1 p b0 b1 of Inl e \<Rightarrow> s1 | Inr s2 \<Rightarrow> s2))"

definition twoBobs :: Server where
  "twoBobs =
     afterHello (afterHello (start cfg0) ''10.0.0.1:4000'' (hello ''bob'') 0 0)
       ''10.0.0.2:4000'' (hello ''bob'') 0x27 0x0F"

text \<open>Four connections from one address, the limit that \<open>loadConfig\<close> sets.\<close>

definition fourConns :: Server where
  "fourConns =
     fst (accept (fst (accept (fst (accept oneConn ''10.0.0.1:4001'' []))
                    ''10.0.0.1:4002'' [])) ''10.0.0.1:4003'' [])"

text \<open>One registered client, and a second connection that has not said \<open>HELLO\<close>.\<close>

definition bobAndGuest :: Server where
  "bobAndGuest =
     fst (accept (afterHello (start cfg0) ''10.0.0.1:4000'' (hello ''bob'') 0 0)
            ''10.0.0.2:4000'' [])"

text \<open>
  A third peer asks for \<open>bob\<close>. \<open>clientsAfterDisconnect\<close> is the registry once
  \<open>disconnect\<close> has run.
\<close>

definition threeBobs :: Server where
  "threeBobs = afterHello twoBobs ''10.0.0.3:4000'' (hello ''bob'') 0x27 0x0F"

definition clientsAfterDisconnect :: "Server \<Rightarrow> nat \<Rightarrow> error + (string \<times> nat) list" where
  "clientsAfterDisconnect s p =
     (case disconnect s p of Inl e \<Rightarrow> Inl e | Inr s' \<Rightarrow> Inr (clients s'))"






text \<open>The bytes a valid nickname is made of.\<close>

definition nickAlphabet :: string where
  "nickAlphabet = ''abcdefghijklmnopqrstuvwxyzABCDEFGHIJKLMNOPQRSTUVWXYZ0123456789_''"

text \<open>
  \<open>badGuest\<close>: a second peer that asks for the nickname \<open>no\<close>. \<open>tinyGuest\<close>: a
  server configured with \<open>MaxMsgSize = 8\<close> and a peer that sends \<open>HI\<close>.
  \<open>handshakeOutcome\<close> is what the peer was sent and whether its connection is closed
  once \<open>handshake\<close> has run.
\<close>

definition badGuest :: Server where
  "badGuest =
     fst (accept (afterHello (start cfg0) ''10.0.0.1:4000'' (hello ''bob'') 0 0)
            ''10.0.0.2:4000'' (hello ''no''))"

definition tinyGuest :: Server where
  "tinyGuest = fst (accept (start (cfg0\<lparr>MaxMsgSize := 8\<rparr>)) ''10.0.0.1:4000'' (''HI'' @ [LF]))"

definition handshakeOutcome :: "Server \<Rightarrow> nat \<Rightarrow> 8 word \<Rightarrow> 8 word \<Rightarrow> error + string \<times> bool" where
  "handshakeOutcome s p b0 b1 =
     (case handshake s p b0 b1 of
        Inl e \<Rightarrow> Inl e
      | Inr s' \<Rightarrow> Inr (outbuf (Conn (heap s' p)), connClosed (Conn (heap s' p))))"




section \<open>The random suffix\<close>

lemma itoa_const: "itoa n = Some ''0000''"
  by (simp add: itoa_def Format_def elementAt_def startsWith_def TrimPrefix_def)

lemma pad4_cases:
  "pad4 n = Some (if n <s 10 then ''0000000'' else if n <s 100 then ''000000''
                  else if n <s 1000 then ''00000'' else ''0000'')"
  by (simp add: pad4_def itoa_const)

lemma RandomSuffix_Some:
  "\<exists>z. RandomSuffix b0 b1 = Some (CHR ''_'' # CHR ''0'' # z)"
  by (simp add: RandomSuffix_def Let_def pad4_cases)

text \<open>
  C2. The suffix should be an underscore followed by the four zero-padded decimal
  digits of the number drawn. With the random bytes 0x04 and 0xD2 the number drawn is
  1234, whose suffix would be \<open>_1234\<close>; \<open>RandomSuffix\<close> returns \<open>_0000\<close>, because
  \<open>itoa\<close> formats a time with a layout that has no element and so always yields
  \<open>0000\<close>.
\<close>

theorem RandomSuffix_not_digits:
  "Uint16 0x04 0xD2 mod 10000 = 1234 \<and>
   RandomSuffix 0x04 0xD2 = Some ''_0000'' \<and>
   ''_'' @ fourDigits 1234 = ''_1234''"
  by (simp add: RandomSuffix_def Uint16_def pad4_cases word_sless_alt fourDigits_def digit_def)

section \<open>The message interval\<close>

lemma max_go_ge1: "1 \<le> sint (max_go 1 m)"
  by (simp add: max_go_def word_sless_alt)

lemma msgInterval_Inr: "\<exists>d. msgInterval c = Inr d"
proof -
  have "1 \<le> sint (max_go 1 (MaxMsgsPerSec c))" by (rule max_go_ge1)
  then have "max_go 1 (MaxMsgsPerSec c) \<noteq> 0" by auto
  then show ?thesis by (simp add: msgInterval_def go_div_def)
qed

text \<open>
  C9. The divisor of the message interval is \<open>max(1, MaxMsgsPerSec)\<close>; whatever the
  configured value is, it is at least 1, so it is not zero and the division does not
  panic.
\<close>

theorem msgInterval_divisor:
  "1 \<le> sint (max_go 1 (MaxMsgsPerSec c)) \<and> max_go 1 (MaxMsgsPerSec c) \<noteq> 0 \<and>
   (\<exists>d. msgInterval c = Inr d)"
proof -
  have a: "1 \<le> sint (max_go 1 (MaxMsgsPerSec c))" by (rule max_go_ge1)
  then have b: "max_go 1 (MaxMsgsPerSec c) \<noteq> 0" by auto
  then show ?thesis using a by (simp add: msgInterval_def go_div_def)
qed

section \<open>Releasing the address slot\<close>

lemma sint_inc:
  fixes c m :: "64 word"
  assumes "sint c < sint m"
  shows "sint (c + 1) = sint c + 1"
proof -
  have "sint m < 2 ^ 63" using sint_lt [of m] by simp
  moreover have "- (2 ^ 63) \<le> sint c" using sint_ge [of c] by simp
  ultimately show ?thesis using assms
    by (simp add: sint_word_ariths signed_take_bit_int_eq_self)
qed

lemma sint_dec:
  fixes c :: "64 word"
  assumes "- (2 ^ 63) < sint c"
  shows "sint (c - 1) = sint c - 1"
proof -
  have "sint c < 2 ^ 63" using sint_lt [of c] by simp
  then show ?thesis using assms
    by (simp add: sint_word_ariths signed_take_bit_int_eq_self)
qed

lemma disconnect_Inr: "\<not> SendClosed (heap s p) \<Longrightarrow> \<exists>s'. disconnect s p = Inr s'"
  by (simp add: disconnect_def Let_def)

lemma disconnect_ipCount:
  "disconnect s p = Inr s' \<Longrightarrow>
     ipCount s' a = (if a = IP (heap s p) then ipCount s a - 1 else ipCount s a)"
  by (auto simp: disconnect_def Let_def ipCount_def split: if_splits)

lemma oneConn_facts:
  "\<not> SendClosed (heap oneConn 0)" "IP (heap oneConn 0) = ''10.0.0.1''"
  "ipCount oneConn ''10.0.0.1'' = 1" "clients oneConn = []"
  by (simp_all add: oneConn_def accept_def start_def loadConfig_def cfg0_def Let_def
      remoteIP_def ipCount_def word_sle_eq)

text \<open>
  C8, as stated, fails: the release has no floor. In the state that holds one open
  client whose address has the count 0, \<open>disconnect\<close> leaves the count at -1.
\<close>

theorem disconnect_no_floor:
  "releasedCount (oneConn\<lparr>ipCounts := Map.empty\<rparr>) 0 = Inr (- 1)"
  using oneConn_facts
  by (simp add: releasedCount_def disconnect_def Let_def ipCount_def)

text \<open>
  C8, amended: \<open>disconnect\<close> lowers the count of the client's address by exactly one
  (short of the least 64-bit value there is no wrap-around). The count after the
  release is therefore at least 0 when the count before was at least 1, and -1 when
  it was 0.
\<close>

theorem disconnect_count:
  assumes "disconnect s p = Inr s'"
    and "- (2 ^ 63) < sint (ipCount s (IP (heap s p)))"
  shows "sint (ipCount s' (IP (heap s p))) = sint (ipCount s (IP (heap s p))) - 1"
  using assms by (simp add: disconnect_ipCount sint_dec)

theorem disconnect_count_witness:
  "\<exists>s'. disconnect oneConn 0 = Inr s' \<and>
        - (2 ^ 63) < sint (ipCount oneConn (IP (heap oneConn 0))) \<and>
        sint (ipCount oneConn (IP (heap oneConn 0))) = 1 \<and>
        sint (ipCount s' (IP (heap oneConn 0))) = 0"
proof -
  obtain s' where d: "disconnect oneConn 0 = Inr s'"
    using disconnect_Inr oneConn_facts(1) by blast
  have r: "- (2 ^ 63) < sint (ipCount oneConn (IP (heap oneConn 0)))"
    by (simp add: oneConn_facts)
  from disconnect_count [OF d r] d show ?thesis
    by (simp add: oneConn_facts)
qed

section \<open>uniqueNick\<close>

lemmas eval_defs = afterHello_def accept_def handshake_def start_def loadConfig_def cfg0_def
  Let_def remoteIP_def ipCount_def word_sle_eq word_sless_alt hello_def ReadLine_def WriteLine_def
  Wrap_def LF_def CR_def TrimRight_def ParseCommand_def TrimSpace_def trimLeading.simps
  seqPrefix_def spaceSeqs_def ValidNick_def nickRune_def uniqueNick_def setClient_def
  RandomSuffix_def Uint16_def pad4_cases

lemma clients_twoBobs: "clients twoBobs = [(''bob'', 0), (''bob_0000'', 1)]"
  unfolding twoBobs_def by (simp add: eval_defs)

text \<open>
  C1, as stated, fails: \<open>uniqueNick\<close> appends the suffix and returns, without looking
  the result up. With \<open>bob\<close> and \<open>bob_0000\<close> registered, a third request for
  \<open>bob\<close> is answered with \<open>bob_0000\<close>, a key of the registry, and not with a
  failure.
\<close>

theorem uniqueNick_collides:
  "map_of (clients twoBobs) ''bob'' = Some 0 \<and>
   map_of (clients twoBobs) ''bob_0000'' = Some 1 \<and>
   uniqueNick twoBobs ''bob'' 0x27 0x0F = Some ''bob_0000''"
  by (simp add: clients_twoBobs uniqueNick_def RandomSuffix_def Uint16_def pad4_cases
      word_sless_alt)

text \<open>
  C1, amended: for a nickname \<open>n\<close> that is a key of the registry, \<open>uniqueNick\<close>
  always returns \<open>n\<close> followed by the non-empty suffix that \<open>RandomSuffix\<close> made,
  a string different from \<open>n\<close>. The result is not looked up again and no failure
  is reported.
\<close>

theorem uniqueNick_taken:
  assumes "map_of (clients s) n \<noteq> None"
  shows "\<exists>suffix. RandomSuffix b0 b1 = Some suffix \<and> suffix \<noteq> [] \<and>
           uniqueNick s n b0 b1 = Some (n @ suffix) \<and> n @ suffix \<noteq> n"
proof -
  obtain z where "RandomSuffix b0 b1 = Some (CHR ''_'' # CHR ''0'' # z)"
    using RandomSuffix_Some by blast
  then show ?thesis using assms by (simp add: uniqueNick_def)
qed

theorem uniqueNick_taken_witness:
  "map_of (clients twoBobs) ''bob'' \<noteq> None \<and>
   (\<exists>suffix. RandomSuffix 0 0 = Some suffix \<and> suffix \<noteq> [] \<and>
      uniqueNick twoBobs ''bob'' 0 0 = Some (''bob'' @ suffix) \<and> ''bob'' @ suffix \<noteq> ''bob'')"
proof -
  have h: "map_of (clients twoBobs) ''bob'' \<noteq> None"
    by (simp add: clients_twoBobs)
  from uniqueNick_taken [OF h, of 0 0] h show ?thesis by blast
qed

section \<open>The line transport\<close>

lemma takeWhile_upto_LF:
  "LF \<notin> set x \<Longrightarrow> takeWhile (\<lambda>b. b \<noteq> LF) (x @ LF # rest) = x"
  by (induction x) auto

lemma dropWhile_upto_LF:
  "LF \<notin> set x \<Longrightarrow> dropWhile (\<lambda>b. b \<noteq> LF) (x @ LF # rest) = LF # rest"
  by (induction x) auto

lemma TrimRight_snoc_LF: "TrimRight (x @ [LF]) [CR, LF] = TrimRight x [CR, LF]"
  by (simp add: TrimRight_def)

lemma TrimRight_subset: "set (TrimRight x cs) \<subseteq> set x"
  using set_dropWhileD [of _ "\<lambda>c. c \<in> set cs" "rev x"] by (auto simp: TrimRight_def)

lemma TrimRight_clean: "set x \<inter> set cs = {} \<Longrightarrow> TrimRight x cs = x"
proof -
  assume a: "set x \<inter> set cs = {}"
  have "dropWhile (\<lambda>c. c \<in> set cs) (rev x) = rev x"
    using a by (cases "rev x") (auto simp: disjoint_iff)
  then show ?thesis by (simp add: TrimRight_def)
qed

lemma ReadLine_framed:
  assumes "LF \<notin> set x" and "inbuf r = x @ [LF] @ rest"
  shows "ReadLine r =
     (if int (length x) + 1 > sint (cfgMaxMsgSize r) then (Inl MessageTooBig, r\<lparr>inbuf := rest\<rparr>)
      else if CR \<in> set (TrimRight x [CR, LF]) then (Inl InvalidControlChars, r\<lparr>inbuf := rest\<rparr>)
      else (Inr (TrimRight x [CR, LF]), r\<lparr>inbuf := rest\<rparr>))"
proof -
  have "LF \<notin> set (TrimRight x [CR, LF])"
    using assms(1) TrimRight_subset by blast
  then show ?thesis using assms
    by (simp add: ReadLine_def Let_def takeWhile_upto_LF dropWhile_upto_LF TrimRight_snoc_LF)
qed

text \<open>
  C5, as stated, fails twice. With a maximum of 4 bytes, \<open>WriteLine\<close> accepts the
  4-byte line \<open>abcd\<close>, and \<open>ReadLine\<close> rejects the bytes written, since it counts
  the newline. And \<open>WriteLine\<close> rejects \<open>hi\<close> followed by a carriage return, which
  \<open>ReadLine\<close> accepts and strips.
\<close>

theorem line_roundtrip_fails:
  "WriteLine (Wrap [] 4 0) ''abcd'' = (Inr (), (Wrap [] 4 0)\<lparr>outbuf := ''abcd'' @ [LF]\<rparr>) \<and>
   fst (ReadLine (Wrap (''abcd'' @ [LF]) 4 0)) = Inl MessageTooBig \<and>
   fst (WriteLine (Wrap [] 4 0) (''hi'' @ [CR])) = Inl InvalidControlChars \<and>
   fst (ReadLine (Wrap (''hi'' @ [CR, LF]) 4 0)) = Inr ''hi''"
  by (simp add: WriteLine_def ReadLine_def Wrap_def LF_def CR_def word_sle_eq TrimRight_def)

text \<open>
  C5, amended. Let \<open>x\<close> hold no newline and have a length other than the maximum, let
  the writer be open, and let the reader find \<open>x\<close> and a newline at the head of its
  input. If \<open>x\<close> is longer than the maximum, both fail with the size error. Otherwise,
  if \<open>x\<close> holds no carriage return, \<open>WriteLine\<close> sends \<open>x\<close> and a newline and
  \<open>ReadLine\<close> returns \<open>x\<close>. Otherwise \<open>WriteLine\<close> fails with the framing error;
  \<open>ReadLine\<close> fails with it as well when a carriage return is left after the
  trailing ones are stripped, and returns the stripped line when none is left.
\<close>

theorem line_roundtrip:
  assumes "LF \<notin> set x" and "\<not> connClosed w"
    and "cfgMaxMsgSize r = cfgMaxMsgSize w" and "inbuf r = x @ [LF] @ rest"
    and "int (length x) \<noteq> sint (cfgMaxMsgSize w)"
  shows "(fst (WriteLine w x), fst (ReadLine r)) =
           (if int (length x) > sint (cfgMaxMsgSize w)
              then (Inl MessageTooBig, Inl MessageTooBig)
            else if CR \<notin> set x then (Inr (), Inr x)
            else if CR \<in> set (TrimRight x [CR, LF])
              then (Inl InvalidControlChars, Inl InvalidControlChars)
            else (Inl InvalidControlChars, Inr (TrimRight x [CR, LF]))) \<and>
         snd (WriteLine w x) =
           (if int (length x) < sint (cfgMaxMsgSize w) \<and> CR \<notin> set x
            then w\<lparr>outbuf := outbuf w @ x @ [LF]\<rparr> else w) \<and>
         snd (ReadLine r) = r\<lparr>inbuf := rest\<rparr>"
proof -
  have clean: "CR \<notin> set x \<Longrightarrow> TrimRight x [CR, LF] = x"
    using assms(1) by (intro TrimRight_clean) auto
  have sub: "CR \<in> set (TrimRight x [CR, LF]) \<Longrightarrow> CR \<in> set x"
    using TrimRight_subset by blast
  show ?thesis
    using assms clean sub
    by (auto simp: ReadLine_framed WriteLine_def)
qed

theorem line_roundtrip_witness:
  "LF \<notin> set ''hi'' \<and> \<not> connClosed (Wrap [] 0 0) \<and>
   cfgMaxMsgSize (Wrap (''hi'' @ [LF] @ ''rest'') 0 0) = cfgMaxMsgSize (Wrap [] 0 0) \<and>
   inbuf (Wrap (''hi'' @ [LF] @ ''rest'') 0 0) = ''hi'' @ [LF] @ ''rest'' \<and>
   int (length ''hi'') \<noteq> sint (cfgMaxMsgSize (Wrap [] 0 0)) \<and>
   (fst (WriteLine (Wrap [] 0 0) ''hi''), fst (ReadLine (Wrap (''hi'' @ [LF] @ ''rest'') 0 0)))
     = (Inr (), Inr ''hi'') \<and>
   outbuf (snd (WriteLine (Wrap [] 0 0) ''hi'')) = ''hi'' @ [LF] \<and>
   inbuf (snd (ReadLine (Wrap (''hi'' @ [LF] @ ''rest'') 0 0))) = ''rest''"
proof -
  have h1: "LF \<notin> set ''hi''" by (simp add: LF_def)
  have h2: "\<not> connClosed (Wrap [] 0 0)" by (simp add: Wrap_def)
  have h3: "cfgMaxMsgSize (Wrap (''hi'' @ [LF] @ ''rest'') 0 0) = cfgMaxMsgSize (Wrap [] 0 0)"
    by (simp add: Wrap_def)
  have h4: "inbuf (Wrap (''hi'' @ [LF] @ ''rest'') 0 0) = ''hi'' @ [LF] @ ''rest''"
    by (simp add: Wrap_def)
  have h5: "int (length ''hi'') \<noteq> sint (cfgMaxMsgSize (Wrap [] 0 0))"
    by (simp add: Wrap_def)
  have c: "CR \<notin> set ''hi''" by (simp add: CR_def)
  have m: "sint (cfgMaxMsgSize (Wrap [] 0 0)) = 4096" by (simp add: Wrap_def)
  from line_roundtrip [OF h1 h2 h3 h4 h5] h1 h2 h3 h4 h5 c m show ?thesis
    by (simp add: Wrap_def)
qed

section \<open>Invariants of the reachable states\<close>

lemma same_refl: "same s s"
  by (simp add: same_def)

lemma same_trans: "same s t \<Longrightarrow> same t u \<Longrightarrow> same s u"
  by (simp add: same_def)

lemma same_ipCount: "same s s' \<Longrightarrow> ipCount s' a = ipCount s a"
  by (simp add: same_def ipCount_def)

lemma same_live: "same s s' \<Longrightarrow> live s' a = live s a"
  by (auto simp: same_def live_def sk_def)

lemma regOK_same: "same s s' \<Longrightarrow> regOK s \<Longrightarrow> regOK s'"
  by (simp add: same_def regOK_def sk_def)

lemma countOK_same: "same s s' \<Longrightarrow> countOK s \<Longrightarrow> countOK s'"
  using same_ipCount [of s s'] same_live [of s s']
  by (simp add: countOK_def same_def)

lemma Nick_ReadLine: "Nick (snd (ReadLine c)) = Nick c"
  by (simp add: ReadLine_def Let_def)

lemma Nick_WriteLine: "Nick (snd (WriteLine c x)) = Nick c"
  by (simp add: WriteLine_def)

lemma Nick_writeMotd: "Nick (writeMotd c ls) = Nick c"
  by (induction ls arbitrary: c) (simp_all add: Nick_WriteLine)

lemma closed_ReadLine: "connClosed (snd (ReadLine c)) = connClosed c"
  by (simp add: ReadLine_def Let_def)

lemma closed_WriteLine: "connClosed (snd (WriteLine c x)) = connClosed c"
  by (simp add: WriteLine_def)

lemma closed_writeMotd: "connClosed (writeMotd c ls) = connClosed c"
  by (induction ls arbitrary: c) (simp_all add: closed_WriteLine)

lemmas conn_frame = Nick_WriteLine Nick_writeMotd closed_WriteLine closed_writeMotd

lemma openOK_same: "same s s' \<Longrightarrow> openOK s \<Longrightarrow> openOK s'"
  by (simp add: same_def openOK_def sk_def)

lemma same_setClient: "sk c = sk (heap s p) \<Longrightarrow> same s (setClient s p c)"
  by (simp add: same_def setClient_def)

lemma sendAll_sk: "sendAll ps msg h = Inr h' \<Longrightarrow> sk (h' q) = sk (h q)"
proof (induction ps arbitrary: h)
  case Nil
  then show ?case by simp
next
  case (Cons p ps)
  then obtain c where c: "trySend (h p) msg = Inr c" and r: "sendAll ps msg (h(p := c)) = Inr h'"
    by (auto split: sum.splits)
  have "sk c = sk (h p)"
    using c by (auto simp: trySend_def sk_def split: if_splits)
  with Cons.IH [OF r] show ?case by (simp split: if_splits)
qed

lemma same_broadcast: "broadcast s msg = Inr s' \<Longrightarrow> same s s'"
  by (auto simp: broadcast_def same_def sendAll_sk split: sum.splits)

lemma same_writeLoopStep: "same s (writeLoopStep s p)"
  by (auto simp: writeLoopStep_def Let_def same_refl sk_def Nick_WriteLine
      closed_WriteLine intro!: same_setClient split: list.splits)

lemma finite_live: "finite (live s a)"
proof -
  have "live s a \<subseteq> {..<nextId s}" by (auto simp: live_def)
  then show ?thesis using finite_subset by blast
qed

lemma regOK_disconnect:
  assumes "regOK s" and "disconnect s p = Inr s'"
  shows "regOK s'"
proof -
  let ?n = "Nick (Conn (heap s p))"
  have cl: "clients s' = AList.delete ?n (clients s)" and nx: "nextId s' = nextId s"
    and hp: "\<And>q. q \<noteq> p \<Longrightarrow> heap s' q = heap s q"
    using assms(2) by (auto simp: disconnect_def Let_def split: if_splits)
  have d: "distinct (map fst (clients s'))"
    using assms(1) by (simp add: cl regOK_def distinct_delete)
  have "k \<noteq> [] \<and> q < nextId s' \<and> \<not> SendClosed (heap s' q) \<and> Nick (Conn (heap s' q)) = k"
    if m: "map_of (clients s') k = Some q" for k q
  proof -
    from m have kn: "k \<noteq> ?n" and m0: "map_of (clients s) k = Some q"
      by (auto simp: cl delete_conv' split: if_splits)
    from assms(1) m0 have r: "k \<noteq> []" "q < nextId s" "\<not> SendClosed (heap s q)"
      "Nick (Conn (heap s q)) = k"
      by (auto simp: regOK_def)
    from r(4) kn have "q \<noteq> p" by auto
    then show ?thesis using r by (simp add: hp nx)
  qed
  with d show ?thesis by (simp add: regOK_def)
qed

lemma live_disconnect:
  assumes "disconnect s p = Inr s'" and "p < nextId s"
  shows "live s' a = (if a = IP (heap s p) then live s a - {p} else live s a)"
    and "p \<in> live s (IP (heap s p))"
  using assms
  by (auto simp: live_def disconnect_def Let_def split: if_splits)

lemma cfg_disconnect: "disconnect s p = Inr s' \<Longrightarrow> cfg s' = cfg s"
  by (auto simp: disconnect_def Let_def split: if_splits)

lemma countOK_disconnect:
  assumes ok: "countOK s" and p: "p < nextId s" and d: "disconnect s p = Inr s'"
  shows "countOK s'"
proof -
  let ?ip = "IP (heap s p)"
  have mem: "p \<in> live s ?ip" using live_disconnect(2) [OF d p] .
  then have pos: "1 \<le> card (live s ?ip)"
    using finite_live [of s ?ip] by (metis One_nat_def Suc_leI card_gt_0_iff empty_iff)
  have cnt: "sint (ipCount s ?ip) = int (card (live s ?ip))"
    using ok by (simp add: countOK_def)
  have dec: "sint (ipCount s ?ip - 1) = sint (ipCount s ?ip) - 1"
    using cnt pos by (intro sint_dec) simp
  have card': "card (live s ?ip - {p}) = card (live s ?ip) - 1"
    using mem finite_live [of s ?ip] by simp
  show ?thesis
    unfolding countOK_def
  proof (intro conjI allI)
    show "1 \<le> sint (MaxConnsPerIP (cfg s'))"
      using ok cfg_disconnect [OF d] by (simp add: countOK_def)
  next
    fix a
    show "sint (ipCount s' a) = int (card (live s' a))"
      using ok dec card' cnt pos
      by (simp add: countOK_def disconnect_ipCount [OF d] live_disconnect(1) [OF d p])
  next
    fix a
    have "int (card (live s a)) \<le> sint (MaxConnsPerIP (cfg s))"
      using ok by (simp add: countOK_def)
    moreover have "card (live s' a) \<le> card (live s a)"
      using card' by (simp add: live_disconnect(1) [OF d p])
    ultimately show "int (card (live s' a)) \<le> sint (MaxConnsPerIP (cfg s'))"
      by (simp add: cfg_disconnect [OF d])
  qed
qed

lemma accept_frame:
  "clients (fst (accept s addr bytes)) = clients s"
  "nextId s \<le> nextId (fst (accept s addr bytes))"
  "q < nextId s \<Longrightarrow> heap (fst (accept s addr bytes)) q = heap s q"
  by (simp_all add: accept_def Let_def)

lemma regOK_accept:
  assumes r: "regOK s"
  shows "regOK (fst (accept s addr bytes))"
proof -
  let ?s' = "fst (accept s addr bytes)"
  have "k \<noteq> [] \<and> q < nextId ?s' \<and> \<not> SendClosed (heap ?s' q) \<and>
        Nick (Conn (heap ?s' q)) = k"
    if m: "map_of (clients ?s') k = Some q" for k q
  proof -
    from m have m0: "map_of (clients s) k = Some q" by (simp add: accept_frame(1))
    from r m0 have f: "k \<noteq> []" "q < nextId s" "\<not> SendClosed (heap s q)"
      "Nick (Conn (heap s q)) = k"
      by (auto simp: regOK_def)
    have "q < nextId ?s'" using f(2) accept_frame(2) [of s addr bytes] by linarith
    then show ?thesis using f by (simp add: accept_frame(3))
  qed
  then show ?thesis using r by (simp add: regOK_def accept_frame(1))
qed

lemma live_accept:
  assumes "\<not> MaxConnsPerIP (cfg s) \<le>s ipCount s (remoteIP addr)"
  shows "live (fst (accept s addr bytes)) a =
           (if a = remoteIP addr then insert (nextId s) (live s a) else live s a)"
  using assms by (auto simp: live_def accept_def Let_def less_Suc_eq)

lemma ipCount_accept:
  assumes "\<not> MaxConnsPerIP (cfg s) \<le>s ipCount s (remoteIP addr)"
  shows "ipCount (fst (accept s addr bytes)) a =
           (if a = remoteIP addr then ipCount s a + 1 else ipCount s a)"
  using assms by (simp add: accept_def Let_def ipCount_def)

lemma cfg_accept: "cfg (fst (accept s addr bytes)) = cfg s"
  by (simp add: accept_def Let_def)

lemma countOK_accept:
  assumes ok: "countOK s"
  shows "countOK (fst (accept s addr bytes))"
proof (cases "MaxConnsPerIP (cfg s) \<le>s ipCount s (remoteIP addr)")
  case True
  then show ?thesis using ok by (simp add: accept_def Let_def)
next
  case False
  let ?ip = "remoteIP addr"
  let ?s' = "fst (accept s addr bytes)"
  have lt: "sint (ipCount s ?ip) < sint (MaxConnsPerIP (cfg s))"
    using False by (simp add: word_sle_eq)
  have inc: "sint (ipCount s ?ip + 1) = sint (ipCount s ?ip) + 1"
    using lt by (rule sint_inc)
  have fresh: "nextId s \<notin> live s ?ip" by (simp add: live_def)
  have card': "card (insert (nextId s) (live s ?ip)) = Suc (card (live s ?ip))"
    using fresh finite_live [of s ?ip] by simp
  have cnt: "sint (ipCount s a) = int (card (live s a))" for a
    using ok by (simp add: countOK_def)
  show ?thesis
    unfolding countOK_def
  proof (intro conjI allI)
    show "1 \<le> sint (MaxConnsPerIP (cfg ?s'))"
      using ok by (simp add: countOK_def cfg_accept)
  next
    fix a
    show "sint (ipCount ?s' a) = int (card (live ?s' a))"
      using inc card' cnt by (simp add: ipCount_accept [OF False] live_accept [OF False])
  next
    fix a
    have "int (card (live s a)) \<le> sint (MaxConnsPerIP (cfg s))"
      using ok by (simp add: countOK_def)
    then show "int (card (live ?s' a)) \<le> sint (MaxConnsPerIP (cfg ?s'))"
      using lt card' cnt [of ?ip] by (simp add: cfg_accept live_accept [OF False])
  qed
qed

lemma countOK_registered:
  assumes "countOK s" and "registered s p nick s'"
  shows "countOK s'"
proof -
  have f: "SendClosed (heap s' q) = SendClosed (heap s q) \<and> IP (heap s' q) = IP (heap s q)" for q
  proof -
    from assms(2) have "sk (heap s' q) =
        (if q = p then (SendClosed (heap s p), IP (heap s p), nick, connClosed (Conn (heap s p)))
         else sk (heap s q))"
      by (simp add: registered_def)
    then show ?thesis by (cases "q = p") (simp_all add: sk_def)
  qed
  have nx: "nextId s' = nextId s" using assms(2) by (simp add: registered_def)
  have l: "live s' a = live s a" for a
    by (simp add: live_def f nx)
  have c: "ipCount s' a = ipCount s a" for a
    using assms(2) by (simp add: registered_def ipCount_def)
  show ?thesis using assms by (simp add: countOK_def l c registered_def)
qed

lemma regOK_registered:
  assumes r: "regOK s" and g: "registered s p nick s'" and p: "p < nextId s"
    and o: "\<not> SendClosed (heap s p)" and e: "Nick (Conn (heap s p)) = []" and n: "nick \<noteq> []"
  shows "regOK s'"
proof -
  have cl: "clients s' = AList.update nick p (clients s)" and nx: "nextId s' = nextId s"
    using g by (simp_all add: registered_def)
  have skp: "sk (heap s' p) = (False, IP (heap s p), nick, connClosed (Conn (heap s p)))"
    and skq: "\<And>q. q \<noteq> p \<Longrightarrow> sk (heap s' q) = sk (heap s q)"
    using g o by (simp_all add: registered_def)
  have d: "distinct (map fst (clients s'))"
    using r by (simp add: cl regOK_def distinct_update)
  have "k \<noteq> [] \<and> q < nextId s' \<and> \<not> SendClosed (heap s' q) \<and> Nick (Conn (heap s' q)) = k"
    if m: "map_of (clients s') k = Some q" for k q
  proof (cases "k = nick")
    case True
    then have "q = p" using m by (simp add: cl update_conv')
    then show ?thesis using True n p skp by (simp add: nx sk_def)
  next
    case False
    then have m0: "map_of (clients s) k = Some q" using m by (simp add: cl update_conv')
    from r m0 have f: "k \<noteq> []" "q < nextId s" "\<not> SendClosed (heap s q)"
      "Nick (Conn (heap s q)) = k"
      by (auto simp: regOK_def)
    from f(1,4) e have "q \<noteq> p" by auto
    then show ?thesis using f skq [of q] by (simp add: nx sk_def)
  qed
  with d show ?thesis by (simp add: regOK_def)
qed

lemma uniqueNick_nonempty:
  assumes "ValidNick n" and "uniqueNick s n b0 b1 = Some nick"
  shows "nick \<noteq> []"
proof -
  have "n \<noteq> []" using assms(1) by (auto simp: ValidNick_def split: if_splits)
  then show ?thesis using assms(2) by (auto simp: uniqueNick_def split: if_splits)
qed

lemma same_setClient2:
  assumes "sk c1 = sk (heap s p)" and "sk c2 = sk (heap s p)"
  shows "same s (setClient (setClient s p c1) p c2)"
  using assms by (simp add: same_def setClient_def)

lemma handshake_cases:
  assumes h: "handshake s p b0 b1 = Inr s'"
  shows "(\<exists>s1. same s s1 \<and> disconnect s1 p = Inr s') \<or>
         (\<exists>nick. nick \<noteq> [] \<and> registered s p nick s')"
proof -
  let ?c = "heap s p"
  obtain r vconn where rl: "ReadLine (Conn ?c) = (r, vconn)" by (cases "ReadLine (Conn ?c)")
  have nv: "Nick vconn = Nick (Conn ?c)" "connClosed vconn = connClosed (Conn ?c)"
    using Nick_ReadLine [of "Conn ?c"] closed_ReadLine [of "Conn ?c"] rl by simp_all
  let ?s1 = "setClient s p (?c\<lparr>Conn := vconn\<rparr>)"
  have s1: "same s ?s1" by (rule same_setClient) (simp add: sk_def nv)
  show ?thesis
  proof (cases r)
    case (Inl e)
    then have "disconnect ?s1 p = Inr s'" using h rl by (simp add: handshake_def Let_def)
    with s1 show ?thesis by blast
  next
    case (Inr line)
    obtain cmd arg where pc: "ParseCommand line = (cmd, arg)" by (cases "ParseCommand line")
    show ?thesis
    proof (cases "cmd \<noteq> ''HELLO'' \<or> \<not> ValidNick arg")
      case True
      let ?s2 = "setClient ?s1 p (?c\<lparr>Conn := snd (WriteLine vconn ''ERROR 100'')\<rparr>)"
      have d: "disconnect ?s2 p = Inr s'"
        using h rl Inr pc True by (simp add: handshake_def Let_def)
      have "same s ?s2"
        by (rule same_setClient2) (simp_all add: sk_def nv conn_frame)
      with d show ?thesis by blast
    next
      case False
      then have v: "ValidNick arg" and hc: "cmd = ''HELLO''" by simp_all
      obtain nick where u: "uniqueNick ?s1 arg b0 b1 = Some nick"
        using h rl Inr pc hc v by (auto simp: handshake_def Let_def split: option.splits)
      let ?v2 = "snd (WriteLine (vconn\<lparr>Nick := nick\<rparr>) (''HELLO '' @ nick))"
      let ?v3 = "if Motd (cfg s) \<noteq> [] then writeMotd ?v2 (SplitLF (Motd (cfg s))) else ?v2"
      have s': "s' = (setClient ?s1 p (?c\<lparr>Conn := ?v3\<rparr>))
                       \<lparr>clients := AList.update nick p (clients ?s1)\<rparr>"
        using h rl Inr pc hc v u by (auto simp: handshake_def Let_def)
      have n3: "Nick ?v3 = nick" by (simp add: Nick_writeMotd Nick_WriteLine)
      have "registered s p nick s'"
        unfolding registered_def s'
        by (simp add: setClient_def sk_def conn_frame nv)
      moreover have "nick \<noteq> []" using uniqueNick_nonempty [OF v u] .
      ultimately show ?thesis by blast
    qed
  qed
qed

lemma activeStep_cases:
  assumes h: "activeStep s p now1 now2 = Inr s'"
  shows "same s s' \<or> (\<exists>s1. same s s1 \<and> disconnect s1 p = Inr s')"
proof -
  let ?c = "heap s p"
  obtain r vconn where rl: "ReadLine (Conn ?c) = (r, vconn)" by (cases "ReadLine (Conn ?c)")
  have nv: "Nick vconn = Nick (Conn ?c)" "connClosed vconn = connClosed (Conn ?c)"
    using Nick_ReadLine [of "Conn ?c"] closed_ReadLine [of "Conn ?c"] rl by simp_all
  let ?c1 = "?c\<lparr>Conn := vconn\<rparr>"
  let ?s1 = "setClient s p ?c1"
  have s1: "same s ?s1" by (rule same_setClient) (simp add: sk_def nv)
  show ?thesis
  proof (cases r)
    case (Inl e)
    then have "disconnect ?s1 p = Inr s'" using h rl by (simp add: activeStep_def Let_def)
    with s1 show ?thesis by blast
  next
    case (Inr line)
    obtain cmd arg where pc: "ParseCommand line = (cmd, arg)" by (cases "ParseCommand line")
    consider (msg) "cmd = ''MSG''" | (ping) "cmd = ''PING''" | (bye) "cmd = ''BYE''"
      | (other) "cmd \<noteq> ''MSG''" "cmd \<noteq> ''PING''" "cmd \<noteq> ''BYE''" by blast
    then show ?thesis
    proof cases
      case msg
      obtain d where d: "msgInterval (cfg s) = Inr d"
        using msgInterval_Inr [of "cfg s"] by blast
      show ?thesis
      proof (cases "Since now1 (LastMsg ?c) <s d")
        case True
        then have "s' = ?s1" using h rl Inr pc msg d by (simp add: activeStep_def Let_def)
        with s1 show ?thesis by simp
      next
        case False
        let ?s2 = "setClient ?s1 p (?c1\<lparr>LastMsg := now2\<rparr>)"
        have b: "broadcast ?s2 (''MSG '' @ Nick (Conn ?c) @ '': '' @ arg) = Inr s'"
          using h rl Inr pc msg d False by (simp add: activeStep_def Let_def)
        have "same s ?s2" by (rule same_setClient2) (simp_all add: sk_def nv)
        then have "same s s'" using same_broadcast [OF b] same_trans by blast
        then show ?thesis by simp
      qed
    next
      case ping
      let ?s2 = "setClient ?s1 p (?c1\<lparr>Conn := snd (WriteLine vconn ''PONG'')\<rparr>)"
      have "s' = ?s2" using h rl Inr pc ping by (simp add: activeStep_def Let_def)
      moreover have "same s ?s2"
        by (rule same_setClient2) (simp_all add: sk_def nv conn_frame)
      ultimately show ?thesis by simp
    next
      case bye
      let ?s2 = "setClient ?s1 p (?c1\<lparr>Conn := snd (WriteLine vconn ''CYA'')\<rparr>)"
      have d: "disconnect ?s2 p = Inr s'"
        using h rl Inr pc bye by (simp add: activeStep_def Let_def)
      have "same s ?s2"
        by (rule same_setClient2) (simp_all add: sk_def nv conn_frame)
      with d show ?thesis by blast
    next
      case other
      then have "s' = ?s1" using h rl Inr pc by (simp add: activeStep_def Let_def)
      with s1 show ?thesis by simp
    qed
  qed
qed

lemma loadConfig_max: "1 \<le> sint (MaxConnsPerIP (loadConfig c0))"
  by (simp add: loadConfig_def Let_def word_sle_eq)

lemma inv_start: "regOK (start c0) \<and> countOK (start c0)"
  using loadConfig_max [of c0]
  by (simp add: regOK_def countOK_def start_def live_def ipCount_def)

lemma inv_disconnect:
  assumes "regOK s \<and> countOK s" and "same s s1" and "p < nextId s"
    and "disconnect s1 p = Inr s'"
  shows "regOK s' \<and> countOK s'"
proof -
  have p1: "p < nextId s1" using assms(2,3) by (simp add: same_def)
  have "regOK s1" "countOK s1"
    using assms(1,2) regOK_same countOK_same by blast+
  then show ?thesis
    using regOK_disconnect [OF _ assms(4)] countOK_disconnect [OF _ p1 assms(4)] by blast
qed

lemma phase_AwaitingHello:
  "phaseOf c = AwaitingHello \<Longrightarrow> \<not> SendClosed c \<and> Nick (Conn c) = []"
  by (auto simp: phaseOf_def split: if_splits)

lemma reachable_inv: "reachable s \<Longrightarrow> regOK s \<and> countOK s"
proof (induction rule: reachable.induct)
  case (init c0)
  show ?case by (rule inv_start)
next
  case (conn s addr peerBytes)
  then show ?case using regOK_accept countOK_accept by blast
next
  case (hello s p b0 b1 s')
  from handshake_cases [OF hello.hyps(4)] show ?case
  proof
    assume "\<exists>s1. same s s1 \<and> disconnect s1 p = Inr s'"
    then show ?thesis using inv_disconnect [OF hello.IH _ hello.hyps(2)] by blast
  next
    assume "\<exists>nick. nick \<noteq> [] \<and> registered s p nick s'"
    then obtain nick where n: "nick \<noteq> []" and g: "registered s p nick s'" by blast
    have o: "\<not> SendClosed (heap s p)" and e: "Nick (Conn (heap s p)) = []"
      using phase_AwaitingHello [OF hello.hyps(3)] by simp_all
    have "regOK s'" using regOK_registered [OF _ g hello.hyps(2) o e n] hello.IH by blast
    moreover have "countOK s'" using countOK_registered [OF _ g] hello.IH by blast
    ultimately show ?thesis by blast
  qed
next
  case (line s p now1 now2 s')
  from activeStep_cases [OF line.hyps(4)] show ?case
  proof
    assume "same s s'"
    then show ?thesis using line.IH regOK_same countOK_same by blast
  next
    assume "\<exists>s1. same s s1 \<and> disconnect s1 p = Inr s'"
    then show ?thesis using inv_disconnect [OF line.IH _ line.hyps(2)] by blast
  qed
next
  case (drain s p)
  then show ?case using same_writeLoopStep [of s p] regOK_same countOK_same by blast
qed

lemma openOK_disconnect: "openOK s \<Longrightarrow> disconnect s p = Inr s' \<Longrightarrow> openOK s'"
  by (auto simp: openOK_def disconnect_def Let_def Close_def split: if_splits)

lemma openOK_accept: "openOK s \<Longrightarrow> openOK (fst (accept s addr bytes))"
  by (simp add: openOK_def accept_def Let_def Wrap_def)

lemma openOK_registered:
  assumes "openOK s" and "registered s p nick s'"
  shows "openOK s'"
proof -
  have "connClosed (Conn (heap s' q)) = connClosed (Conn (heap s q)) \<and>
        SendClosed (heap s' q) = SendClosed (heap s q)" for q
  proof -
    from assms(2) have "sk (heap s' q) =
        (if q = p then (SendClosed (heap s p), IP (heap s p), nick, connClosed (Conn (heap s p)))
         else sk (heap s q))"
      by (simp add: registered_def)
    then show ?thesis by (cases "q = p") (simp_all add: sk_def)
  qed
  then show ?thesis using assms(1) by (simp add: openOK_def)
qed

lemma openOK_start: "openOK (start c0)"
  by (simp add: openOK_def start_def emptyClient_def Wrap_def)

lemma reachable_open: "reachable s \<Longrightarrow> openOK s"
proof (induction rule: reachable.induct)
  case (init c0)
  show ?case by (rule openOK_start)
next
  case (conn s addr peerBytes)
  then show ?case by (simp add: openOK_accept)
next
  case (hello s p b0 b1 s')
  from handshake_cases [OF hello.hyps(4)] show ?case
    using hello.IH openOK_same openOK_disconnect openOK_registered by blast
next
  case (line s p now1 now2 s')
  from activeStep_cases [OF line.hyps(4)] show ?case
    using line.IH openOK_same openOK_disconnect by blast
next
  case (drain s p)
  then show ?case using same_writeLoopStep [of s p] openOK_same by blast
qed

lemma reachable_afterHello:
  assumes r: "reachable s"
  shows "reachable (afterHello s addr bytes b0 b1)"
proof -
  obtain s1 res where a: "accept s addr bytes = (s1, res)" by (cases "accept s addr bytes")
  have r1: "reachable s1" using reachable.conn [OF r, of addr bytes] a by simp
  show ?thesis
  proof (cases res)
    case None
    then show ?thesis using r1 a by (simp add: afterHello_def)
  next
    case (Some p)
    then have f: "p < nextId s1" "phaseOf (heap s1 p) = AwaitingHello"
      using a by (auto simp: accept_def Let_def phaseOf_def Wrap_def split: if_splits)
    show ?thesis
    proof (cases "handshake s1 p b0 b1")
      case (Inl e)
      then show ?thesis using r1 Some a by (simp add: afterHello_def)
    next
      case (Inr s2)
      have "reachable s2" using reachable.hello [OF r1 f Inr] .
      then show ?thesis using Some Inr a by (simp add: afterHello_def)
    qed
  qed
qed

lemma reachable_twoBobs: "reachable twoBobs"
  unfolding twoBobs_def by (intro reachable_afterHello reachable.init)

section \<open>The connection limit\<close>

lemma reachable_oneConn: "reachable oneConn"
  unfolding oneConn_def by (intro reachable.conn reachable.init)

lemma reachable_fourConns: "reachable fourConns"
  unfolding fourConns_def by (intro reachable.conn reachable_oneConn)

lemma fourConns_facts:
  "ipCount fourConns ''10.0.0.1'' = 4" "MaxConnsPerIP (cfg fourConns) = 4"
  "nextId fourConns = 4" "remoteIP ''10.0.0.1:4004'' = ''10.0.0.1''"
  by (simp_all add: fourConns_def oneConn_def accept_def start_def loadConfig_def cfg0_def
      Let_def remoteIP_def ipCount_def word_sle_eq)

text \<open>
  C7. In every state the server reaches, the count of every address lies between 0
  and \<open>MaxConnsPerIP\<close>. \<open>accept\<close> raises the count of the peer's address by one
  and creates the client only when the count is below the limit; otherwise it returns
  the state as it was and no client, so nothing is read from or written to the peer.
  A handler calls \<open>disconnect\<close> once, which \<open>reachable\<close> expresses by the phase
  of its client.
\<close>

theorem ipCount_bounded:
  assumes "reachable s"
  shows "0 \<le> sint (ipCount s a) \<and> sint (ipCount s a) \<le> sint (MaxConnsPerIP (cfg s)) \<and>
         sint (ipCount (fst (accept s addr bytes)) (remoteIP addr)) =
           (if sint (ipCount s (remoteIP addr)) < sint (MaxConnsPerIP (cfg s))
            then sint (ipCount s (remoteIP addr)) + 1
            else sint (ipCount s (remoteIP addr))) \<and>
         accept s addr bytes =
           (if sint (ipCount s (remoteIP addr)) < sint (MaxConnsPerIP (cfg s))
            then (fst (accept s addr bytes), Some (nextId s))
            else (s, None))"
proof -
  have ok: "countOK s" using reachable_inv [OF assms] by simp
  have b: "0 \<le> sint (ipCount s a)" "sint (ipCount s a) \<le> sint (MaxConnsPerIP (cfg s))"
    using ok by (simp_all add: countOK_def)
  show ?thesis
  proof (cases "sint (ipCount s (remoteIP addr)) < sint (MaxConnsPerIP (cfg s))")
    case True
    then have n: "\<not> MaxConnsPerIP (cfg s) \<le>s ipCount s (remoteIP addr)"
      by (simp add: word_sle_eq)
    have "snd (accept s addr bytes) = Some (nextId s)"
      using n by (simp add: accept_def Let_def)
    then have "accept s addr bytes = (fst (accept s addr bytes), Some (nextId s))"
      by (metis prod.collapse)
    then show ?thesis
      using b True sint_inc [OF True] by (simp add: ipCount_accept [OF n])
  next
    case False
    then have "MaxConnsPerIP (cfg s) \<le>s ipCount s (remoteIP addr)"
      by (simp add: word_sle_eq)
    then have "accept s addr bytes = (s, None)" by (simp add: accept_def Let_def)
    then show ?thesis using b False by simp
  qed
qed

theorem ipCount_bounded_witness:
  "reachable fourConns \<and>
   sint (ipCount fourConns ''10.0.0.1'') = 4 \<and>
   sint (MaxConnsPerIP (cfg fourConns)) = 4 \<and>
   accept fourConns ''10.0.0.1:4004'' [] = (fourConns, None) \<and>
   sint (ipCount (fst (accept fourConns ''10.0.0.2:4000'' [])) (remoteIP ''10.0.0.2:4000'')) = 1"
proof -
  have r: "reachable fourConns" by (rule reachable_fourConns)
  have z: "ipCount fourConns ''10.0.0.2'' = 0" "remoteIP ''10.0.0.2:4000'' = ''10.0.0.2''"
    by (simp_all add: fourConns_def oneConn_def accept_def start_def loadConfig_def cfg0_def
        Let_def remoteIP_def ipCount_def word_sle_eq)
  from ipCount_bounded [OF r, of "''10.0.0.1''" "''10.0.0.1:4004''" "[]"]
       ipCount_bounded [OF r, of "''10.0.0.1''" "''10.0.0.2:4000''" "[]"] r
  show ?thesis by (simp add: fourConns_facts z)
qed

section \<open>The frame of disconnect\<close>

lemma delete_absent: "map_of al k = None \<Longrightarrow> AList.delete k al = al"
  by (induction al) (auto split: if_splits)

lemma reachable_no_empty_key:
  assumes "reachable s"
  shows "map_of (clients s) [] = None"
proof (cases "map_of (clients s) []")
  case None
  then show ?thesis .
next
  case (Some p)
  have "regOK s" using reachable_inv [OF assms] by simp
  then have "([]::string) \<noteq> []" using Some unfolding regOK_def by blast
  then show ?thesis by simp
qed

lemma reachable_bobAndGuest: "reachable bobAndGuest"
  unfolding bobAndGuest_def by (intro reachable.conn reachable_afterHello reachable.init)

lemma bobAndGuest_facts:
  "clients bobAndGuest = [(''bob'', 0)]" "Nick (Conn (heap bobAndGuest (Suc 0))) = []"
  "IP (heap bobAndGuest (Suc 0)) = ''10.0.0.2''" "\<not> SendClosed (heap bobAndGuest (Suc 0))"
  "ipCount bobAndGuest ''10.0.0.2'' = 1" "ipCount bobAndGuest ''10.0.0.1'' = 1"
  unfolding bobAndGuest_def by (simp_all add: eval_defs)

lemma reachable_threeBobs: "reachable threeBobs"
  unfolding threeBobs_def by (intro reachable_afterHello reachable_twoBobs)

lemma threeBobs_facts:
  "clients threeBobs = [(''bob'', 0), (''bob_0000'', 2)]"
  "Nick (Conn (heap threeBobs (Suc 0))) = ''bob_0000''"
  "\<not> SendClosed (heap threeBobs (Suc 0))"
  unfolding threeBobs_def twoBobs_def by (simp_all add: eval_defs)

text \<open>
  C10, as stated, fails for the registry. After three requests for \<open>bob\<close> the second
  and the third client both bear the nickname \<open>bob_0000\<close> and the key belongs to
  the third (pointer 2). When the second client (pointer 1) disconnects, the entry of
  the third is removed.
\<close>

theorem disconnect_removes_other:
  "reachable threeBobs \<and>
   map_of (clients threeBobs) ''bob_0000'' = Some 2 \<and>
   Nick (Conn (heap threeBobs (Suc 0))) = ''bob_0000'' \<and>
   clientsAfterDisconnect threeBobs (Suc 0) = Inr [(''bob'', 0)]"
  using reachable_threeBobs threeBobs_facts
  by (simp add: clientsAfterDisconnect_def disconnect_def Let_def)

text \<open>
  C10, amended. In a reachable state \<open>disconnect\<close> of the client at \<open>p\<close> removes the
  entry under that client's nickname and leaves the entry under every other nickname
  as it was; it lowers the count of that client's address by one and leaves the count
  of every other address as it was; it closes that client's connection and channel and
  leaves every other client object as it was. When the nickname is still empty, the
  registry is unchanged.
\<close>

theorem disconnect_frame:
  assumes "reachable s" and "disconnect s p = Inr s'"
  shows "map_of (clients s') k =
           (if k = Nick (Conn (heap s p)) then None else map_of (clients s) k) \<and>
         ipCount s' a = (if a = IP (heap s p) then ipCount s a - 1 else ipCount s a) \<and>
         heap s' q =
           (if q = p then (heap s p)\<lparr>Conn := Close (Conn (heap s p)), SendClosed := True\<rparr>
            else heap s q) \<and>
         clients s' =
           (if Nick (Conn (heap s p)) = [] then clients s
            else AList.delete (Nick (Conn (heap s p))) (clients s)) \<and>
         totalMsg s' = totalMsg s \<and> cfg s' = cfg s \<and> nextId s' = nextId s"
proof -
  let ?n = "Nick (Conn (heap s p))"
  have cl: "clients s' = AList.delete ?n (clients s)"
    and hp: "heap s' = (heap s)(p := (heap s p)\<lparr>Conn := Close (Conn (heap s p)), SendClosed := True\<rparr>)"
    and rest: "totalMsg s' = totalMsg s" "cfg s' = cfg s" "nextId s' = nextId s"
    using assms(2) by (auto simp: disconnect_def Let_def split: if_splits)
  have e: "?n = [] \<Longrightarrow> AList.delete ?n (clients s) = clients s"
    using reachable_no_empty_key [OF assms(1)] delete_absent by metis
  show ?thesis
    using e rest by (simp add: cl hp delete_conv' disconnect_ipCount [OF assms(2)])
qed

theorem disconnect_frame_witness:
  "reachable bobAndGuest \<and>
   (\<exists>s'. disconnect bobAndGuest (Suc 0) = Inr s' \<and>
      Nick (Conn (heap bobAndGuest (Suc 0))) = [] \<and>
      clients s' = clients bobAndGuest \<and>
      map_of (clients s') ''bob'' = Some 0 \<and>
      sint (ipCount s' ''10.0.0.2'') = 0 \<and>
      sint (ipCount s' ''10.0.0.1'') = 1 \<and>
      heap s' 0 = heap bobAndGuest 0)"
proof -
  have r: "reachable bobAndGuest" by (rule reachable_bobAndGuest)
  obtain s' where d: "disconnect bobAndGuest (Suc 0) = Inr s'"
    using disconnect_Inr bobAndGuest_facts(4) by blast
  from disconnect_frame [OF r d, of "''bob''" "''10.0.0.2''" 0]
       disconnect_frame [OF r d, of "''bob''" "''10.0.0.1''" 0] r d
  show ?thesis by (simp add: bobAndGuest_facts)
qed

section \<open>broadcast\<close>











section \<open>The handshake\<close>

lemma lower_range: "list_all (\<lambda>n. char_of n \<in> set nickAlphabet) [97..<123]"
  unfolding nickAlphabet_def by code_simp

lemma upper_range: "list_all (\<lambda>n. char_of n \<in> set nickAlphabet) [65..<91]"
  unfolding nickAlphabet_def by code_simp

lemma digit_range: "list_all (\<lambda>n. char_of n \<in> set nickAlphabet) [48..<58]"
  unfolding nickAlphabet_def by code_simp

lemma alphabet_nickRune: "list_all nickRune nickAlphabet"
  unfolding nickAlphabet_def by (simp add: nickRune_def)

lemma in_range:
  assumes "list_all (\<lambda>n. char_of n \<in> set nickAlphabet) [a..<b]"
    and "a \<le> (of_char c :: nat)" and "(of_char c :: nat) < b"
  shows "c \<in> set nickAlphabet"
proof -
  have "(of_char c :: nat) \<in> set [a..<b]" using assms(2,3) by simp
  then have "char_of (of_char c :: nat) \<in> set nickAlphabet"
    using assms(1) by (simp only: list_all_iff)
  then show ?thesis by simp
qed

lemma nickRune_alphabet: "nickRune c \<longleftrightarrow> c \<in> set nickAlphabet"
proof
  assume "nickRune c"
  then have "(97 \<le> (of_char c :: nat) \<and> (of_char c :: nat) \<le> 122) \<or>
             (65 \<le> (of_char c :: nat) \<and> (of_char c :: nat) \<le> 90) \<or>
             (48 \<le> (of_char c :: nat) \<and> (of_char c :: nat) \<le> 57) \<or> c = CHR ''_''"
    by (simp add: nickRune_def)
  then consider "97 \<le> (of_char c :: nat)" "(of_char c :: nat) < 123"
    | "65 \<le> (of_char c :: nat)" "(of_char c :: nat) < 91"
    | "48 \<le> (of_char c :: nat)" "(of_char c :: nat) < 58"
    | "c = CHR ''_''"
    by linarith
  then show "c \<in> set nickAlphabet"
  proof cases
    case 1 then show ?thesis by (rule in_range [OF lower_range])
  next
    case 2 then show ?thesis by (rule in_range [OF upper_range])
  next
    case 3 then show ?thesis by (rule in_range [OF digit_range])
  next
    case 4 then show ?thesis by (simp add: nickAlphabet_def)
  qed
next
  assume "c \<in> set nickAlphabet"
  then show "nickRune c" using alphabet_nickRune by (simp only: list_all_iff)
qed

lemma nickRunes_alphabet: "nickRunes n \<longleftrightarrow> set n \<subseteq> set nickAlphabet"
  by (induction n) (simp_all only: nickRunes.simps nickRune_alphabet list.set, auto)

lemma ValidNick_alphabet:
  "ValidNick n \<longleftrightarrow> 3 \<le> length n \<and> length n \<le> 20 \<and> set n \<subseteq> set nickAlphabet"
  unfolding ValidNick_def nickRunes_alphabet by auto

lemma ReadLine_frame:
  "outbuf (snd (ReadLine c)) = outbuf c" "cfgMaxMsgSize (snd (ReadLine c)) = cfgMaxMsgSize c"
  by (simp_all add: ReadLine_def Let_def)

lemma uniqueNick_Some: "\<exists>nick. uniqueNick s n b0 b1 = Some nick"
  using RandomSuffix_Some [of b0 b1] by (auto simp: uniqueNick_def)

lemma WriteLine_ERROR:
  "\<not> connClosed c \<Longrightarrow>
   outbuf (snd (WriteLine c ''ERROR 100'')) =
     outbuf c @ (if 9 \<le> sint (cfgMaxMsgSize c) then ''ERROR 100'' @ [LF] else [])"
  by (simp add: WriteLine_def LF_def CR_def)

lemma reachable_badGuest: "reachable badGuest"
  unfolding badGuest_def by (intro reachable.conn reachable_afterHello reachable.init)

lemma reachable_tinyGuest: "reachable tinyGuest"
  unfolding tinyGuest_def by (intro reachable.conn reachable.init)

lemma badGuest_facts:
  "phaseOf (heap badGuest (Suc 0)) = AwaitingHello"
  "fst (ReadLine (Conn (heap badGuest (Suc 0)))) = Inr ''HELLO no''"
  "ParseCommand ''HELLO no'' = (''HELLO'', ''no'')"
  "\<not> ValidNick ''no''"
  "outbuf (Conn (heap badGuest (Suc 0))) = []"
  "cfgMaxMsgSize (Conn (heap badGuest (Suc 0))) = 4096"
  unfolding badGuest_def by (simp_all add: eval_defs phaseOf_def)

text \<open>
  C6, as stated, fails when the configured size limit is below the nine bytes of
  \<open>ERROR 100\<close>: with \<open>MaxMsgSize = 8\<close> and the first line \<open>HI\<close>, the rejection
  closes the connection and \<open>WriteLine\<close> has refused the error line, so nothing was
  sent.
\<close>

theorem handshake_no_error_line:
  "reachable tinyGuest \<and>
   phaseOf (heap tinyGuest 0) = AwaitingHello \<and>
   fst (ReadLine (Conn (heap tinyGuest 0))) = Inr ''HI'' \<and>
   ParseCommand ''HI'' = (''HI'', []) \<and>
   handshakeOutcome tinyGuest 0 0 0 = Inr ([], True)"
  using reachable_tinyGuest
  unfolding tinyGuest_def handshakeOutcome_def
  by (simp add: eval_defs phaseOf_def disconnect_def Close_def)

text \<open>
  C6, amended. Let the handshake of a reachable state read a first line. It ends in a
  closed connection if and only if the command is not \<open>HELLO\<close> or the argument is not
  a valid nickname; in that case exactly the line \<open>ERROR 100\<close> was sent before,
  provided the size limit of the connection is at least 9 (nothing is sent below
  that). A nickname is valid if and only if it has 3 to 20 bytes, all of them ASCII
  letters, digits or underscores.
\<close>

theorem handshake_rejects:
  assumes "reachable s" and "phaseOf (heap s p) = AwaitingHello"
    and "ReadLine (Conn (heap s p)) = (Inr line, vconn)"
    and "ParseCommand line = (cmd, arg)"
  shows "\<exists>s'. handshake s p b0 b1 = Inr s' \<and>
           (connClosed (Conn (heap s' p)) \<longleftrightarrow> cmd \<noteq> ''HELLO'' \<or> \<not> ValidNick arg) \<and>
           (cmd \<noteq> ''HELLO'' \<or> \<not> ValidNick arg \<longrightarrow>
              outbuf (Conn (heap s' p)) =
                outbuf (Conn (heap s p)) @
                  (if 9 \<le> sint (cfgMaxMsgSize (Conn (heap s p)))
                   then ''ERROR 100'' @ [LF] else [])) \<and>
           (ValidNick arg \<longleftrightarrow>
              3 \<le> length arg \<and> length arg \<le> 20 \<and> set arg \<subseteq> set nickAlphabet)"
proof -
  let ?c = "heap s p"
  have o: "\<not> SendClosed ?c" using phase_AwaitingHello [OF assms(2)] by simp
  have "openOK s" using reachable_open [OF assms(1)] .
  then have nc: "\<not> connClosed (Conn ?c)" using o by (auto simp: openOK_def)
  have v: "connClosed vconn = connClosed (Conn ?c)" "outbuf vconn = outbuf (Conn ?c)"
    "cfgMaxMsgSize vconn = cfgMaxMsgSize (Conn ?c)"
    using closed_ReadLine [of "Conn ?c"] ReadLine_frame [of "Conn ?c"] assms(3) by simp_all
  show ?thesis
  proof (cases "cmd \<noteq> ''HELLO'' \<or> \<not> ValidNick arg")
    case True
    let ?w = "snd (WriteLine vconn ''ERROR 100'')"
    let ?s2 = "setClient (setClient s p (?c\<lparr>Conn := vconn\<rparr>)) p (?c\<lparr>Conn := ?w\<rparr>)"
    have h: "handshake s p b0 b1 = disconnect ?s2 p"
      using assms(3,4) True by (simp add: handshake_def Let_def)
    have hp: "heap ?s2 p = ?c\<lparr>Conn := ?w\<rparr>" by (simp add: setClient_def)
    obtain s' where d: "disconnect ?s2 p = Inr s'"
      using disconnect_Inr [of ?s2 p] o hp by auto
    have hs: "heap s' p = ?c\<lparr>Conn := Close ?w, SendClosed := True\<rparr>"
      using d hp by (auto simp: disconnect_def Let_def split: if_splits)
    have ob: "outbuf ?w = outbuf (Conn ?c) @
        (if 9 \<le> sint (cfgMaxMsgSize (Conn ?c)) then ''ERROR 100'' @ [LF] else [])"
      using WriteLine_ERROR [of vconn] nc v by simp
    show ?thesis
      using h d True ob by (simp add: hs Close_def ValidNick_alphabet)
  next
    case False
    then have hc: "cmd = ''HELLO''" and va: "ValidNick arg" by simp_all
    let ?s1 = "setClient s p (?c\<lparr>Conn := vconn\<rparr>)"
    obtain nick where u: "uniqueNick ?s1 arg b0 b1 = Some nick"
      using uniqueNick_Some by blast
    let ?v2 = "snd (WriteLine (vconn\<lparr>Nick := nick\<rparr>) (''HELLO '' @ nick))"
    let ?v3 = "if Motd (cfg s) \<noteq> [] then writeMotd ?v2 (SplitLF (Motd (cfg s))) else ?v2"
    let ?s' = "(setClient ?s1 p (?c\<lparr>Conn := ?v3\<rparr>))\<lparr>clients := AList.update nick p (clients ?s1)\<rparr>"
    have h: "handshake s p b0 b1 = Inr ?s'"
      using assms(3,4) hc va u by (auto simp: handshake_def Let_def)
    have "connClosed (Conn (heap ?s' p)) = connClosed (Conn ?c)"
      by (simp add: setClient_def conn_frame v)
    then show ?thesis
      using h False nc by (simp add: ValidNick_alphabet)
  qed
qed

theorem handshake_rejects_witness:
  "reachable badGuest \<and>
   phaseOf (heap badGuest (Suc 0)) = AwaitingHello \<and>
   fst (ReadLine (Conn (heap badGuest (Suc 0)))) = Inr ''HELLO no'' \<and>
   ParseCommand ''HELLO no'' = (''HELLO'', ''no'') \<and>
   \<not> ValidNick ''no'' \<and>
   (\<exists>s'. handshake badGuest (Suc 0) 0 0 = Inr s' \<and>
      connClosed (Conn (heap s' (Suc 0))) \<and>
      outbuf (Conn (heap s' (Suc 0))) = ''ERROR 100'' @ [LF])"
proof -
  have r: "reachable badGuest" by (rule reachable_badGuest)
  have rl: "ReadLine (Conn (heap badGuest (Suc 0))) =
             (Inr ''HELLO no'', snd (ReadLine (Conn (heap badGuest (Suc 0)))))"
    using badGuest_facts(2) by (metis prod.collapse)
  from handshake_rejects [OF r badGuest_facts(1) rl badGuest_facts(3), of 0 0] r
  show ?thesis by (auto simp: badGuest_facts)
qed

section \<open>The message rate limit\<close>














end
